theory Spec2Isabelle
  imports Main
begin

section \<open>The ship executor of shipit-nx\<close>

text \<open>
  A shallow embedding of \<^verbatim>\<open>libs/shipit-nx/src/lib/features/ship/impl.ts\<close>.
  The executor \<^verbatim>\<open>shipIt\<close> builds one configuration value from the invocation options
  and the execution context, hands an ordered list of phase classes to
  \<^verbatim>\<open>runPhases\<close>, and maps the outcome of that promise to \<^verbatim>\<open>{success: boolean}\<close>.

  A promise is modelled by the value it settles to: \<open>Inr v\<close> when it resolves with
  \<open>v\<close>, \<open>Inl e\<close> when it rejects with \<open>e\<close>.
\<close>

subsection \<open>Data\<close>

text \<open>The seven phase classes imported from \<^verbatim>\<open>../../phases\<close>.\<close>

datatype phase =
    ClonePhase
  | CorruptionCheckPhase
  | CleanPhase
  | SyncPhase
  | VerifyRepoPhase
  | PostProcessPhase
  | PushPhase

text \<open>Thrown values, classified as in the error taxonomy of the design.\<close>

datatype error =
    ResolutionError string
  | TransportError string
  | IntegrityError string
  | SynchronizationError string
  | PolicyError string
  | OtherError string

text \<open>
  \<^verbatim>\<open>interface ShipExecutorOptions { repo: string; branch: string;
  maxWarnings?: number; dryRun?: boolean }\<close>; an optional member that is absent
  (\<^verbatim>\<open>undefined\<close>) is \<open>None\<close>.
\<close>

record ShipExecutorOptions =
  repo :: string
  branch :: string
  maxWarnings :: "int option"
  dryRun :: "bool option"

text \<open>
  The part of Nx's \<^verbatim>\<open>ExecutorContext\<close> that the executor reads:
  \<^verbatim>\<open>context.root\<close>, \<^verbatim>\<open>context.projectName\<close> and
  \<^verbatim>\<open>context.workspace.projects[name]?.root\<close>. The table
  \<^verbatim>\<open>workspace.projects\<close> is an association list from project name to project
  configuration.
\<close>

record ProjectConfiguration =
  root :: string

record Workspace =
  projects :: "(string \<times> ProjectConfiguration) list"

record ExecutorContext =
  root :: string
  projectName :: "string option"
  workspace :: Workspace

text \<open>
  The object literal passed to \<^verbatim>\<open>new ShipConfig({...})\<close>. The five
  single-project members come from a conditional spread; a member that the literal does
  not define, or defines as \<^verbatim>\<open>undefined\<close>, is \<open>None\<close>.
\<close>

record ShipConfigOptions =
  sourcePath :: string
  maxWarnings :: "int option"
  destinationRepoURL :: string
  destinationBranch :: string
  project :: "string option"
  projectRoot :: "string option"
  dependencies :: "string list option"
  dependents :: "string list option"
  workspace :: "string list option"

text \<open>The value \<^verbatim>\<open>shipIt\<close> resolves with.\<close>

record ShipResult =
  success :: bool

text \<open>
  What a pipeline run did, for the observer: the phases that were executed, in the order
  of execution, each with the way it settled.
\<close>

type_synonym execution = "(phase \<times> (error + unit)) list"

text \<open>
  Everything \<^verbatim>\<open>impl.ts\<close> imports and calls. \<open>'g\<close> is the project graph,
  \<open>'c\<close> the \<^verbatim>\<open>ShipConfig\<close> instance, \<open>'w\<close> the state outside the
  program that phases read and change (the working copy and the remote). Every call may
  throw or reject. \<open>runPhases\<close> returns the settlement of its promise, the state it
  leaves and the phases it executed.
\<close>

record ('g, 'c, 'w) collaborators =
  createProjectGraphAsync :: "error + 'g"
  findDependencies :: "'g \<Rightarrow> string \<Rightarrow> error + string list"
  findDependents :: "'g \<Rightarrow> string \<Rightarrow> error + string list"
  findProjectNames :: "(string \<times> ProjectConfiguration) list \<Rightarrow> error + string list"
  newShipConfig :: "ShipConfigOptions \<Rightarrow> error + 'c"
  runPhases :: "phase list \<Rightarrow> 'c \<Rightarrow> 'w \<Rightarrow> (error + unit) \<times> 'w \<times> execution"

subsection \<open>shipIt\<close>

text \<open>
  Lines 29 to 43: the argument of the \<^verbatim>\<open>ShipConfig\<close> constructor. The guard
  \<^verbatim>\<open>context.projectName && context.projectName !== 'workspace'\<close> is true when the
  name is present, not the empty string (which is falsy) and not \<^verbatim>\<open>'workspace'\<close>.
  The three awaited calls run in the order written; the first one that rejects ends the
  construction.
\<close>

definition shipConfigOptions ::
  "('g, 'c, 'w) collaborators \<Rightarrow> ShipExecutorOptions \<Rightarrow> ExecutorContext \<Rightarrow> 'g
    \<Rightarrow> error + ShipConfigOptions" where
  "shipConfigOptions env options context projectGraph =
    (let base = \<lparr>sourcePath = ExecutorContext.root context,
                 maxWarnings = ShipExecutorOptions.maxWarnings options,
                 destinationRepoURL = repo options,
                 destinationBranch = branch options,
                 project = None, projectRoot = None, dependencies = None,
                 dependents = None, workspace = None\<rparr>
     in case projectName context of
          None \<Rightarrow> Inr base
        | Some name \<Rightarrow>
            if name \<noteq> [] \<and> name \<noteq> ''workspace'' then
              (case findDependencies env projectGraph name of
                 Inl e \<Rightarrow> Inl e
               | Inr deps \<Rightarrow>
                  (case findDependents env projectGraph name of
                     Inl e \<Rightarrow> Inl e
                   | Inr dpts \<Rightarrow>
                      (case findProjectNames env
                              (projects (ExecutorContext.workspace context)) of
                         Inl e \<Rightarrow> Inl e
                       | Inr names \<Rightarrow>
                          Inr (base\<lparr>project := Some name,
                                    projectRoot :=
                                      map_option ProjectConfiguration.root
                                        (map_of (projects (ExecutorContext.workspace context))
                                           name),
                                    dependencies := Some deps,
                                    dependents := Some dpts,
                                    workspace := Some names\<rparr>))))
            else Inr base)"

text \<open>Lines 27 to 43: the project graph is awaited first, then the configuration is built.\<close>

definition buildConfig ::
  "('g, 'c, 'w) collaborators \<Rightarrow> ShipExecutorOptions \<Rightarrow> ExecutorContext \<Rightarrow> error + 'c" where
  "buildConfig env options context =
    (case createProjectGraphAsync env of
       Inl e \<Rightarrow> Inl e
     | Inr projectGraph \<Rightarrow>
        (case shipConfigOptions env options context projectGraph of
           Inl e \<Rightarrow> Inl e
         | Inr literal \<Rightarrow> newShipConfig env literal))"

text \<open>
  Lines 46 to 54: the list of phases. \<^verbatim>\<open>options.dryRun ? [] : [PushPhase]\<close> drops the
  last phase only when \<^verbatim>\<open>dryRun\<close> is \<^verbatim>\<open>true\<close>; \<^verbatim>\<open>undefined\<close> is falsy.
\<close>

definition phaseList :: "ShipExecutorOptions \<Rightarrow> phase list" where
  "phaseList options =
    [ClonePhase, CorruptionCheckPhase, CleanPhase, SyncPhase, VerifyRepoPhase,
     PostProcessPhase]
    @ (if dryRun options = Some True then [] else [PushPhase])"

text \<open>
  The executor. A throw before \<^verbatim>\<open>runPhases\<close> is called rejects the promise of the
  \<^verbatim>\<open>async\<close> function and no phase has run; \<^verbatim>\<open>.then\<close> and \<^verbatim>\<open>.catch\<close> are
  attached to the promise of \<^verbatim>\<open>runPhases\<close> only.
\<close>

definition shipIt ::
  "('g, 'c, 'w) collaborators \<Rightarrow> ShipExecutorOptions \<Rightarrow> ExecutorContext \<Rightarrow> 'w
    \<Rightarrow> (error + ShipResult) \<times> 'w \<times> execution" where
  "shipIt env options context w =
    (case buildConfig env options context of
       Inl e \<Rightarrow> (Inl e, w, [])
     | Inr config \<Rightarrow>
        (case runPhases env (phaseList options) config w of
           (Inr u, w', log) \<Rightarrow> (Inr \<lparr>success = True\<rparr>, w', log)
         | (Inl e, w', log) \<Rightarrow> (Inr \<lparr>success = False\<rparr>, w', log)))"

subsection \<open>The pipeline runner\<close>

text \<open>
  Modelled from the spec: \<^verbatim>\<open>runPhases\<close> of \<^verbatim>\<open>../../phases\<close> is not among the
  sources. The design gives its contract: it executes the phases strictly in the given
  order, each one awaited to completion before the next starts; on the first phase that
  fails, execution stops immediately, no subsequent phase runs and no cleanup is
  triggered. The first argument is what executing one phase does: how it settles and the
  state it leaves.
\<close>

fun runPhases_spec ::
  "(phase \<Rightarrow> 'c \<Rightarrow> 'w \<Rightarrow> (error + unit) \<times> 'w) \<Rightarrow> phase list \<Rightarrow> 'c \<Rightarrow> 'w
    \<Rightarrow> (error + unit) \<times> 'w \<times> execution" where
  "runPhases_spec run [] config w = (Inr (), w, [])"
| "runPhases_spec run (p # ps) config w =
    (case run p config w of
       (Inl e, w') \<Rightarrow> (Inl e, w', [(p, Inl e)])
     | (Inr u, w') \<Rightarrow>
        (case runPhases_spec run ps config w' of
           (r, w'', log) \<Rightarrow> (r, w'', (p, Inr u) # log)))"

subsection \<open>The configuration and the verification phase\<close>

text \<open>
  Modelled from the spec: the class \<^verbatim>\<open>ShipConfig\<close> of
  \<^verbatim>\<open>../../configs/ship.config\<close> is not among the sources. The design describes it
  as the immutable context passed through the pipeline, whose \<^verbatim>\<open>maxWarnings\<close> is an
  integer threshold that defaults to an implementation-defined value when the option is
  absent. The default is the first argument of the constructor's model.
\<close>

record ShipConfig =
  given :: ShipConfigOptions
  threshold :: int

definition ShipConfig_spec :: "int \<Rightarrow> ShipConfigOptions \<Rightarrow> error + ShipConfig" where
  "ShipConfig_spec dflt literal =
    Inr \<lparr>given = literal,
         threshold = (case ShipConfigOptions.maxWarnings literal of
                        None \<Rightarrow> dflt | Some m \<Rightarrow> m)\<rparr>"

text \<open>
  Modelled from the spec: the class \<^verbatim>\<open>VerifyRepoPhase\<close> of \<^verbatim>\<open>../../phases\<close>
  is not among the sources. The design gives its failure triggers: the warning count
  exceeds the threshold, or a required file is missing; it inspects the working copy and
  does not change it. What the inspection finds in a working copy is given by the first
  two arguments.
\<close>

definition VerifyRepoPhase_spec ::
  "('w \<Rightarrow> int) \<Rightarrow> ('w \<Rightarrow> bool) \<Rightarrow> ShipConfig \<Rightarrow> 'w \<Rightarrow> (error + unit) \<times> 'w" where
  "VerifyRepoPhase_spec detectedWarnings missingRequired config w =
    (if threshold config < detectedWarnings w \<or> missingRequired w
     then (Inl (PolicyError ''VerifyRepo''), w)
     else (Inr (), w))"

text \<open>
  The behaviour of the seven phases: \<^verbatim>\<open>VerifyRepoPhase\<close> as above, the six others
  as given by the first argument.
\<close>

definition phases_spec ::
  "(phase \<Rightarrow> ShipConfig \<Rightarrow> 'w \<Rightarrow> (error + unit) \<times> 'w) \<Rightarrow> ('w \<Rightarrow> int) \<Rightarrow> ('w \<Rightarrow> bool)
    \<Rightarrow> phase \<Rightarrow> ShipConfig \<Rightarrow> 'w \<Rightarrow> (error + unit) \<times> 'w" where
  "phases_spec others detectedWarnings missingRequired p =
    (if p = VerifyRepoPhase then VerifyRepoPhase_spec detectedWarnings missingRequired
     else others p)"

subsection \<open>The dependency resolver\<close>

text \<open>
  Modelled from the spec: \<^verbatim>\<open>find-dependencies.util\<close>,
  \<^verbatim>\<open>find-dependents.util\<close> and \<^verbatim>\<open>find-project-names.util\<close> are not among the
  sources. In the design the project graph is a mapping from project name to the
  directly depended-upon project names (its second mapping, from name to root path, is
  not read by the resolver); \<^verbatim>\<open>findDependencies\<close> traverses it from the target
  along depends-on edges with a visited set, returns every project reached except the
  target itself, and fails when the target is not found in the graph;
  \<^verbatim>\<open>findDependents\<close> is the same traversal over the inverted edges;
  \<^verbatim>\<open>findProjectNames\<close> enumerates every project of the workspace once.
\<close>

type_synonym ProjectGraph = "(string \<times> string list) list"

definition directDependencies :: "ProjectGraph \<Rightarrow> string \<Rightarrow> string list" where
  "directDependencies g n = (case map_of g n of None \<Rightarrow> [] | Some ds \<Rightarrow> ds)"

text \<open>
  The traversal: a stack of projects still to visit and the list of projects visited so
  far. A project already visited is skipped, so a diamond is entered once and a cycle is
  not followed twice.
\<close>

function traverse :: "ProjectGraph \<Rightarrow> string list \<Rightarrow> string list \<Rightarrow> string list" where
  "traverse g [] visited = visited"
| "traverse g (n # stack) visited =
    (if n \<in> set visited then traverse g stack visited
     else traverse g (directDependencies g n @ stack) (n # visited))"
  by pat_completeness auto

termination
proof (relation "measures [\<lambda>(g, stack, visited). card (fst ` set g - set visited),
                           \<lambda>(g, stack, visited). length stack]")
  show "wf (measures [\<lambda>(g, stack, visited). card (fst ` set g - set visited),
                      \<lambda>(g :: ProjectGraph, stack :: string list, visited :: string list).
                        length stack])"
    by simp
next
  fix g :: ProjectGraph and n :: string and stack visited :: "string list"
  assume "n \<in> set visited"
  then show "((g, stack, visited), (g, n # stack, visited))
    \<in> measures [\<lambda>(g, stack, visited). card (fst ` set g - set visited),
                 \<lambda>(g, stack, visited). length stack]"
    by simp
next
  fix g :: ProjectGraph and n :: string and stack visited :: "string list"
  assume fresh: "n \<notin> set visited"
  show "((g, directDependencies g n @ stack, n # visited), (g, n # stack, visited))
    \<in> measures [\<lambda>(g, stack, visited). card (fst ` set g - set visited),
                 \<lambda>(g, stack, visited). length stack]"
  proof (cases "n \<in> fst ` set g")
    case True
    have "fst ` set g - set (n # visited) \<subset> fst ` set g - set visited"
      using True fresh by auto
    then have "card (fst ` set g - set (n # visited)) < card (fst ` set g - set visited)"
      by (intro psubset_card_mono) simp_all
    then show ?thesis by simp
  next
    case False
    then have "map_of g n = None"
      by (simp add: map_of_eq_None_iff)
    then have "directDependencies g n = []"
      by (simp add: directDependencies_def)
    moreover have "fst ` set g - set (n # visited) = fst ` set g - set visited"
      using False by auto
    ultimately show ?thesis by simp
  qed
qed

definition findDependencies_spec :: "ProjectGraph \<Rightarrow> string \<Rightarrow> error + string list" where
  "findDependencies_spec g target =
    (if target \<in> fst ` set g
     then Inr (removeAll target (traverse g [target] []))
     else Inl (ResolutionError target))"

text \<open>The inverted graph: each project of the graph with the projects that name it.\<close>

definition inverted :: "ProjectGraph \<Rightarrow> ProjectGraph" where
  "inverted g =
    map (\<lambda>n. (n, filter (\<lambda>m. n \<in> set (directDependencies g m)) (map fst g))) (map fst g)"

definition findDependents_spec :: "ProjectGraph \<Rightarrow> string \<Rightarrow> error + string list" where
  "findDependents_spec g target =
    (if target \<in> fst ` set g
     then Inr (removeAll target (traverse (inverted g) [target] []))
     else Inl (ResolutionError target))"

definition findProjectNames_spec ::
  "(string \<times> ProjectConfiguration) list \<Rightarrow> error + string list" where
  "findProjectNames_spec ps = Inr (remdups (map fst ps))"

text \<open>The depends-on relation of a graph, for stating what the traversal computes.\<close>

definition dependsOn :: "ProjectGraph \<Rightarrow> (string \<times> string) set" where
  "dependsOn g = {(a, b). b \<in> set (directDependencies g a)}"

text \<open>
  The collaborators as the design describes them: the graph provider's answer, the
  default threshold and the behaviour of the phases are parameters.
\<close>

definition designed ::
  "(error + ProjectGraph) \<Rightarrow> int \<Rightarrow> (phase \<Rightarrow> ShipConfig \<Rightarrow> 'w \<Rightarrow> (error + unit) \<times> 'w)
    \<Rightarrow> (ProjectGraph, ShipConfig, 'w) collaborators" where
  "designed graph dflt run =
    \<lparr>createProjectGraphAsync = graph,
     findDependencies = findDependencies_spec,
     findDependents = findDependents_spec,
     findProjectNames = findProjectNames_spec,
     newShipConfig = ShipConfig_spec dflt,
     runPhases = runPhases_spec run\<rparr>"

subsection \<open>Sample invocations\<close>

text \<open>
  A workspace of three projects where \<open>A\<close> depends on \<open>B\<close> and \<open>B\<close> on \<open>C\<close>,
  an execution context over it, invocation options, and phases that fail exactly when
  listed; the state counts the phases that completed.
\<close>

definition sampleGraph :: ProjectGraph where
  "sampleGraph = [(''A'', [''B'']), (''B'', [''C'']), (''C'', [])]"

definition sampleContext :: "string option \<Rightarrow> ExecutorContext" where
  "sampleContext name =
    \<lparr>ExecutorContext.root = ''/monorepo'', projectName = name,
     ExecutorContext.workspace =
       \<lparr>projects = [(''A'', \<lparr>ProjectConfiguration.root = ''libs/a''\<rparr>),
                    (''B'', \<lparr>ProjectConfiguration.root = ''libs/b''\<rparr>),
                    (''C'', \<lparr>ProjectConfiguration.root = ''libs/c''\<rparr>)]\<rparr>\<rparr>"

definition sampleOptions :: "int option \<Rightarrow> bool option \<Rightarrow> ShipExecutorOptions" where
  "sampleOptions m d =
    \<lparr>repo = ''git@example.org:dest.git'', branch = ''main'',
     ShipExecutorOptions.maxWarnings = m, dryRun = d\<rparr>"

definition failing :: "phase list \<Rightarrow> phase \<Rightarrow> 'c \<Rightarrow> nat \<Rightarrow> (error + unit) \<times> nat" where
  "failing bad p config w =
    (if p \<in> set bad then (Inl (OtherError ''failed''), w) else (Inr (), Suc w))"

text \<open>
  Collaborators that always answer, with empty dependency lists; a graph with a diamond
  (\<open>A\<close> to \<open>D\<close> through \<open>B\<close> and through \<open>C\<close>) and a cycle (\<open>D\<close> back to
  \<open>A\<close>); and phases whose verification finds one warning and no missing file.
\<close>

definition stubbed :: "(unit, ShipConfigOptions, nat) collaborators" where
  "stubbed =
    \<lparr>createProjectGraphAsync = Inr (),
     findDependencies = (\<lambda>g n. Inr []),
     findDependents = (\<lambda>g n. Inr []),
     findProjectNames = (\<lambda>ps. Inr (map fst ps)),
     newShipConfig = Inr,
     runPhases = runPhases_spec (failing [])\<rparr>"

definition cyclicGraph :: ProjectGraph where
  "cyclicGraph =
    [(''A'', [''B'', ''C'']), (''B'', [''D'']), (''C'', [''D'']), (''D'', [''A''])]"

definition oneWarning :: "phase list \<Rightarrow> phase \<Rightarrow> ShipConfig \<Rightarrow> nat \<Rightarrow> (error + unit) \<times> nat" where
  "oneWarning bad = phases_spec (failing bad) (\<lambda>w. 1) (\<lambda>w. False)"

section \<open>Properties of the pipeline\<close>

subsection \<open>Evaluation of the sample invocations\<close>

lemmas sample_defs = sampleGraph_def sampleContext_def sampleOptions_def failing_def
  designed_def shipIt_def buildConfig_def shipConfigOptions_def phaseList_def
  findDependencies_spec_def findDependents_spec_def findProjectNames_spec_def
  ShipConfig_spec_def directDependencies_def inverted_def Let_def

lemma sample_runner:
  "runPhases (designed graph dflt run) = runPhases_spec run"
  by (simp add: designed_def)

lemma sample_config_A:
  "buildConfig (designed (Inr sampleGraph) 0 run) (sampleOptions m d)
       (sampleContext (Some ''A'')) =
   Inr \<lparr>given =
        \<lparr>sourcePath = ''/monorepo'', maxWarnings = m,
           destinationRepoURL = ''git@example.org:dest.git'',
           destinationBranch = ''main'', project = Some ''A'',
           projectRoot = Some ''libs/a'', dependencies = Some [''C'', ''B''],
           dependents = Some [],
           workspace = Some [''A'', ''B'', ''C'']\<rparr>,
        threshold = (case m of None \<Rightarrow> 0 | Some k \<Rightarrow> k)\<rparr>"
  by (simp add: sample_defs)

lemma sample_run_standard:
  "shipIt (designed (Inr sampleGraph) 0 (failing [])) (sampleOptions None None)
       (sampleContext (Some ''A'')) 0 =
   (Inr \<lparr>success = True\<rparr>, 7,
    [(ClonePhase, Inr ()), (CorruptionCheckPhase, Inr ()), (CleanPhase, Inr ()),
     (SyncPhase, Inr ()), (VerifyRepoPhase, Inr ()), (PostProcessPhase, Inr ()),
     (PushPhase, Inr ())])"
  by (simp add: sample_defs)

lemma sample_run_dry:
  "shipIt (designed (Inr sampleGraph) 0 (failing [])) (sampleOptions None (Some True))
       (sampleContext (Some ''A'')) 0 =
   (Inr \<lparr>success = True\<rparr>, 6,
    [(ClonePhase, Inr ()), (CorruptionCheckPhase, Inr ()), (CleanPhase, Inr ()),
     (SyncPhase, Inr ()), (VerifyRepoPhase, Inr ()), (PostProcessPhase, Inr ())])"
  by (simp add: sample_defs)

lemma sample_run_corrupt:
  "shipIt (designed (Inr sampleGraph) 0 (failing [CorruptionCheckPhase]))
       (sampleOptions None None) (sampleContext (Some ''A'')) 0 =
   (Inr \<lparr>success = False\<rparr>, 1,
    [(ClonePhase, Inr ()), (CorruptionCheckPhase, Inl (OtherError ''failed''))])"
  by (simp add: sample_defs)

lemma sample_run_sync_fails:
  "shipIt (designed (Inr sampleGraph) 0 (failing [SyncPhase]))
       (sampleOptions None None) (sampleContext (Some ''A'')) 0 =
   (Inr \<lparr>success = False\<rparr>, 3,
    [(ClonePhase, Inr ()), (CorruptionCheckPhase, Inr ()), (CleanPhase, Inr ()),
     (SyncPhase, Inl (OtherError ''failed''))])"
  by (simp add: sample_defs)

subsection \<open>What the runner executes\<close>

lemma runPhases_spec_resolved:
  "runPhases_spec run ps config w = (Inr u, w', log) \<Longrightarrow> log = map (\<lambda>p. (p, Inr ())) ps"
  by (induction ps arbitrary: w log) (auto split: prod.splits sum.splits)

lemma runPhases_spec_rejected:
  "runPhases_spec run ps config w = (Inl e, w', log) \<Longrightarrow>
     \<exists>pre p post. ps = pre @ p # post \<and> log = map (\<lambda>p. (p, Inr ())) pre @ [(p, Inl e)]"
proof (induction ps arbitrary: w log)
  case Nil
  then show ?case by simp
next
  case (Cons p ps)
  obtain s w1 where step: "run p config w = (s, w1)" by (cases "run p config w")
  show ?case
  proof (cases s)
    case (Inl e')
    with Cons.prems step have "p # ps = [] @ p # ps"
      and "log = map (\<lambda>p. (p, Inr ())) [] @ [(p, Inl e)]" by auto
    then show ?thesis by blast
  next
    case (Inr u)
    obtain r2 w2 log2 where rest: "runPhases_spec run ps config w1 = (r2, w2, log2)"
      by (cases "runPhases_spec run ps config w1")
    with Cons.prems step Inr have eq: "r2 = Inl e" "log = (p, Inr ()) # log2" "w2 = w'" by auto
    from Cons.IH [OF rest [unfolded eq(1) eq(3)]] obtain pre q post where
      "ps = pre @ q # post" "log2 = map (\<lambda>p. (p, Inr ())) pre @ [(q, Inl e)]" by auto
    then have "p # ps = (p # pre) @ q # post"
      and "log = map (\<lambda>p. (p, Inr ())) (p # pre) @ [(q, Inl e)]"
      using eq by simp_all
    then show ?thesis by blast
  qed
qed

lemma runPhases_spec_append:
  "runPhases_spec run (xs @ ys) config w =
    (case runPhases_spec run xs config w of
       (Inl e, w1, log1) \<Rightarrow> (Inl e, w1, log1)
     | (Inr u, w1, log1) \<Rightarrow>
        (case runPhases_spec run ys config w1 of
           (r, w2, log2) \<Rightarrow> (r, w2, log1 @ log2)))"
  by (induction xs arbitrary: w) (auto split: prod.splits sum.splits)

lemma runPhases_spec_prefix:
  "runPhases_spec run ps config w = (s, w', log) \<Longrightarrow> map fst log = take (length log) ps"
proof (cases s)
  case (Inl e)
  assume "runPhases_spec run ps config w = (s, w', log)"
  with Inl have "runPhases_spec run ps config w = (Inl e, w', log)" by simp
  from runPhases_spec_rejected [OF this] show ?thesis by (auto simp: comp_def)
next
  case (Inr u)
  assume "runPhases_spec run ps config w = (s, w', log)"
  with Inr have "runPhases_spec run ps config w = (Inr u, w', log)" by simp
  from runPhases_spec_resolved [OF this] show ?thesis by (simp add: comp_def)
qed

lemma runPhases_spec_no_failure:
  assumes "runPhases_spec run ps config w = (s, w', log)"
    and "\<forall>x \<in> set log. snd x = Inr ()"
  shows "s = Inr () \<and> map fst log = ps"
proof (cases s)
  case (Inl e)
  with assms(1) have "runPhases_spec run ps config w = (Inl e, w', log)" by simp
  from runPhases_spec_rejected [OF this] assms(2) show ?thesis by auto
next
  case (Inr u)
  with assms(1) have "runPhases_spec run ps config w = (Inr u, w', log)" by simp
  from runPhases_spec_resolved [OF this] Inr show ?thesis by (simp add: comp_def)
qed

subsection \<open>What the executor does with the runner\<close>

lemma shipIt_not_built:
  "buildConfig env options context = Inl e \<Longrightarrow> shipIt env options context w = (Inl e, w, [])"
  by (simp add: shipIt_def)

lemma shipIt_built:
  "buildConfig env options context = Inr config \<Longrightarrow>
   runPhases env (phaseList options) config w = (s, w', log) \<Longrightarrow>
   shipIt env options context w =
     (Inr \<lparr>success = (case s of Inl e \<Rightarrow> False | Inr u \<Rightarrow> True)\<rparr>, w', log)"
  by (simp add: shipIt_def split: sum.splits)

lemma shipIt_log_empty_or_run:
  "shipIt env options context w = (r, w', log) \<Longrightarrow>
    (log = [] \<and> w' = w \<and> (\<exists>e. r = Inl e \<and> buildConfig env options context = Inl e)) \<or>
    (\<exists>config s. buildConfig env options context = Inr config
        \<and> runPhases env (phaseList options) config w = (s, w', log)
        \<and> r = Inr \<lparr>success = (case s of Inl e \<Rightarrow> False | Inr u \<Rightarrow> True)\<rparr>)"
  by (auto simp: shipIt_def split: sum.splits prod.splits)

lemma count_list_all_phases:
  "count_list [ClonePhase, CorruptionCheckPhase, CleanPhase, SyncPhase, VerifyRepoPhase,
     PostProcessPhase, PushPhase] p = 1"
  by (cases p) simp_all

lemma phaseList_dry:
  "dryRun options = Some True \<Longrightarrow> phaseList options =
     [ClonePhase, CorruptionCheckPhase, CleanPhase, SyncPhase, VerifyRepoPhase, PostProcessPhase]"
  by (simp add: phaseList_def)

lemma phaseList_standard:
  "dryRun options \<noteq> Some True \<Longrightarrow> phaseList options =
     [ClonePhase, CorruptionCheckPhase, CleanPhase, SyncPhase, VerifyRepoPhase, PostProcessPhase,
      PushPhase]"
  by (simp add: phaseList_def)

lemma shipIt_dryRun_irrelevant_to_config:
  "buildConfig env (options\<lparr>dryRun := d\<rparr>) context = buildConfig env options context"
proof -
  have "shipConfigOptions env (options\<lparr>dryRun := d\<rparr>) context g
      = shipConfigOptions env options context g" for g
    by (simp add: shipConfigOptions_def)
  then show ?thesis by (simp add: buildConfig_def cong: sum.case_cong)
qed

lemma standard_list_split:
  assumes "phaseList options = pre @ CorruptionCheckPhase # post"
  shows "pre = [ClonePhase]"
proof -
  from assms have eq: "[ClonePhase, CorruptionCheckPhase, CleanPhase, SyncPhase, VerifyRepoPhase,
      PostProcessPhase] @ (if dryRun options = Some True then [] else [PushPhase])
      = pre @ CorruptionCheckPhase # post"
    by (simp add: phaseList_def)
  show ?thesis
  proof (cases pre)
    case Nil
    with eq show ?thesis by simp
  next
    case (Cons a pre')
    with eq have a: "a = ClonePhase"
      and rest: "[CorruptionCheckPhase, CleanPhase, SyncPhase, VerifyRepoPhase, PostProcessPhase]
        @ (if dryRun options = Some True then [] else [PushPhase])
        = pre' @ CorruptionCheckPhase # post"
      by simp_all
    have "pre' = []"
    proof (cases pre')
      case Nil
      then show ?thesis .
    next
      case (Cons b pre'')
      with rest have "[CleanPhase, SyncPhase, VerifyRepoPhase, PostProcessPhase]
          @ (if dryRun options = Some True then [] else [PushPhase])
          = pre'' @ CorruptionCheckPhase # post"
        by simp
      then have "CorruptionCheckPhase \<in> set ([CleanPhase, SyncPhase, VerifyRepoPhase,
          PostProcessPhase] @ (if dryRun options = Some True then [] else [PushPhase]))"
        by (simp only: set_append) simp
      then show ?thesis by (simp split: if_splits)
    qed
    with a Cons show ?thesis by simp
  qed
qed

subsection \<open>The claims about the pipeline\<close>

text \<open>
  C1. For every invocation that is not a dry run and in which every phase succeeds (the
  configuration is built, and no phase that was executed failed), the result is
  \<^verbatim>\<open>{success: true}\<close> and the phases executed are Clone, CorruptionCheck, Clean,
  Sync, VerifyRepo, PostProcess, Push, in that order, each exactly once and no other.
  The runner is the one of the design.
\<close>

theorem shipIt_standard_run:
  assumes runner: "runPhases env = runPhases_spec run"
    and built: "buildConfig env options context = Inr config"
    and standard: "dryRun options \<noteq> Some True"
    and result: "shipIt env options context w = (r, w', log)"
    and ok: "\<forall>x \<in> set log. snd x = Inr ()"
  shows "r = Inr \<lparr>success = True\<rparr>
    \<and> map fst log = [ClonePhase, CorruptionCheckPhase, CleanPhase, SyncPhase,
                      VerifyRepoPhase, PostProcessPhase, PushPhase]
    \<and> (\<forall>p. count_list (map fst log) p = 1)"
proof -
  obtain s w1 log1 where
    run: "runPhases_spec run (phaseList options) config w = (s, w1, log1)"
    by (cases "runPhases_spec run (phaseList options) config w")
  with built runner result have r: "r = Inr \<lparr>success = (case s of Inl e \<Rightarrow> False | Inr u \<Rightarrow> True)\<rparr>"
    and log: "log = log1" and "w' = w1"
    using shipIt_built [of env options "context" config w s w1 log1] by simp_all
  have "\<exists>u. s = Inr u"
  proof (cases s)
    case (Inl e)
    with run have "runPhases_spec run (phaseList options) config w = (Inl e, w1, log1)"
      by simp
    from runPhases_spec_rejected [OF this]
    obtain pre p where "log1 = map (\<lambda>p. (p, Inr ())) pre @ [(p, Inl e)]"
      by blast
    with ok log show ?thesis by simp
  next
    case (Inr u)
    then show ?thesis by blast
  qed
  then obtain u where s: "s = Inr u" ..
  with run have "runPhases_spec run (phaseList options) config w = (Inr u, w1, log1)"
    by simp
  then have "log1 = map (\<lambda>p. (p, Inr ())) (phaseList options)"
    by (rule runPhases_spec_resolved)
  with log have "map fst log = phaseList options"
    by (simp add: comp_def)
  with standard have order: "map fst log = [ClonePhase, CorruptionCheckPhase, CleanPhase,
      SyncPhase, VerifyRepoPhase, PostProcessPhase, PushPhase]"
    by (simp add: phaseList_def)
  from r s have "r = Inr \<lparr>success = True\<rparr>" by simp
  moreover have "\<forall>p. count_list (map fst log) p = 1"
    unfolding order using count_list_all_phases by blast
  ultimately show ?thesis using order by blast
qed

theorem shipIt_standard_run_witness:
  "fst (shipIt (designed (Inr sampleGraph) 0 (failing [])) (sampleOptions None None)
          (sampleContext (Some ''A'')) 0) = Inr \<lparr>success = True\<rparr>
   \<and> map fst (snd (snd (shipIt (designed (Inr sampleGraph) 0 (failing []))
          (sampleOptions None None) (sampleContext (Some ''A'')) 0)))
     = [ClonePhase, CorruptionCheckPhase, CleanPhase, SyncPhase, VerifyRepoPhase,
        PostProcessPhase, PushPhase]"
proof -
  have standard: "dryRun (sampleOptions None None) \<noteq> Some True"
    by (simp add: sampleOptions_def)
  have ok: "\<forall>x \<in> set [(ClonePhase, Inr ()), (CorruptionCheckPhase, Inr ()), (CleanPhase, Inr ()),
     (SyncPhase, Inr ()), (VerifyRepoPhase, Inr ()), (PostProcessPhase, Inr ()),
     (PushPhase, Inr ())]. snd x = (Inr () :: error + unit)"
    by simp
  from shipIt_standard_run [OF sample_runner sample_config_A standard sample_run_standard ok]
  show ?thesis by (simp add: sample_run_standard)
qed

text \<open>
  C2. With \<^verbatim>\<open>dryRun\<close> set to true the Push phase is never executed, and the phases
  that are executed are the six others in the defined order: always an initial part of
  Clone, CorruptionCheck, Clean, Sync, VerifyRepo, PostProcess, and all six of them when
  the configuration is built and no executed phase fails. With \<^verbatim>\<open>dryRun\<close> absent the
  list does include Push, and the invocation behaves as with \<^verbatim>\<open>dryRun\<close> false.
\<close>

theorem shipIt_dry_run:
  assumes runner: "runPhases env = runPhases_spec run"
    and result: "shipIt env options context w = (r, w', log)"
  shows "(dryRun options = Some True \<longrightarrow>
            PushPhase \<notin> fst ` set log
          \<and> map fst log = take (length log)
               [ClonePhase, CorruptionCheckPhase, CleanPhase, SyncPhase, VerifyRepoPhase,
                PostProcessPhase]
          \<and> ((\<exists>config. buildConfig env options context = Inr config)
               \<and> (\<forall>x \<in> set log. snd x = Inr ())
              \<longrightarrow> r = Inr \<lparr>success = True\<rparr>
                \<and> map fst log =
                    [ClonePhase, CorruptionCheckPhase, CleanPhase, SyncPhase, VerifyRepoPhase,
                     PostProcessPhase]))
       \<and> (dryRun options = None \<longrightarrow>
            PushPhase \<in> set (phaseList options)
          \<and> shipIt env options context w = shipIt env (options\<lparr>dryRun := Some False\<rparr>) context w)"
proof (intro conjI impI)
  assume dry: "dryRun options = Some True"
  from shipIt_log_empty_or_run [OF result]
  have "map fst log = take (length log) (phaseList options)"
  proof
    assume "log = [] \<and> w' = w \<and> (\<exists>e. r = Inl e \<and> buildConfig env options context = Inl e)"
    then show ?thesis by simp
  next
    assume "\<exists>config s. buildConfig env options context = Inr config
        \<and> runPhases env (phaseList options) config w = (s, w', log)
        \<and> r = Inr \<lparr>success = (case s of Inl e \<Rightarrow> False | Inr u \<Rightarrow> True)\<rparr>"
    then obtain config s where
      "runPhases_spec run (phaseList options) config w = (s, w', log)"
      using runner by auto
    then show ?thesis by (rule runPhases_spec_prefix)
  qed
  then show prefix: "map fst log = take (length log)
      [ClonePhase, CorruptionCheckPhase, CleanPhase, SyncPhase, VerifyRepoPhase,
       PostProcessPhase]"
    by (simp only: phaseList_dry [OF dry])
  have "PushPhase \<notin> set (map fst log)"
  proof
    assume "PushPhase \<in> set (map fst log)"
    then have "PushPhase \<in> set [ClonePhase, CorruptionCheckPhase, CleanPhase, SyncPhase,
        VerifyRepoPhase, PostProcessPhase]"
      by (subst (asm) prefix) (rule in_set_takeD)
    then show False by simp
  qed
  then show "PushPhase \<notin> fst ` set log" by simp
next
  assume dry: "dryRun options = Some True"
    and ok: "(\<exists>config. buildConfig env options context = Inr config)
      \<and> (\<forall>x \<in> set log. snd x = Inr ())"
  from shipIt_log_empty_or_run [OF result] ok obtain config s where
    run: "runPhases env (phaseList options) config w = (s, w', log)"
    and r: "r = Inr \<lparr>success = (case s of Inl e \<Rightarrow> False | Inr u \<Rightarrow> True)\<rparr>"
    by auto
  from run runner have "runPhases_spec run (phaseList options) config w = (s, w', log)"
    by simp
  from runPhases_spec_no_failure [OF this] ok
  have "s = Inr ()" "map fst log = phaseList options" by simp_all
  with r phaseList_dry [OF dry] show "r = Inr \<lparr>success = True\<rparr>"
    and "map fst log = [ClonePhase, CorruptionCheckPhase, CleanPhase, SyncPhase,
      VerifyRepoPhase, PostProcessPhase]" by simp_all
next
  assume "dryRun options = None"
  then show "PushPhase \<in> set (phaseList options)"
    by (simp add: phaseList_def)
next
  assume absent: "dryRun options = None"
  then have "phaseList (options\<lparr>dryRun := Some False\<rparr>) = phaseList options"
    by (simp add: phaseList_def)
  then show "shipIt env options context w = shipIt env (options\<lparr>dryRun := Some False\<rparr>) context w"
    by (simp add: shipIt_def shipIt_dryRun_irrelevant_to_config cong: sum.case_cong)
qed

theorem shipIt_dry_run_witness:
  "PushPhase \<notin> fst ` set (snd (snd (shipIt (designed (Inr sampleGraph) 0 (failing []))
          (sampleOptions None (Some True)) (sampleContext (Some ''A'')) 0)))
   \<and> map fst (snd (snd (shipIt (designed (Inr sampleGraph) 0 (failing []))
          (sampleOptions None (Some True)) (sampleContext (Some ''A'')) 0)))
     = [ClonePhase, CorruptionCheckPhase, CleanPhase, SyncPhase, VerifyRepoPhase,
        PostProcessPhase]
   \<and> PushPhase \<in> set (phaseList (sampleOptions None None))"
proof -
  have dry: "dryRun (sampleOptions None (Some True)) = Some True"
    and absent: "dryRun (sampleOptions None None) = None"
    by (simp_all add: sampleOptions_def)
  from shipIt_dry_run [OF sample_runner sample_run_dry] dry
  have "PushPhase \<notin> fst ` set [(ClonePhase, Inr ()), (CorruptionCheckPhase, Inr ()),
      (CleanPhase, Inr ()), (SyncPhase, Inr ()), (VerifyRepoPhase, Inr ()),
      (PostProcessPhase, Inr () :: error + unit)]"
    by blast
  moreover from shipIt_dry_run [OF sample_runner sample_run_standard] absent
  have "PushPhase \<in> set (phaseList (sampleOptions None None))"
    by blast
  ultimately show ?thesis by (simp add: sample_run_dry)
qed

text \<open>
  C3. The runner is fail-fast: the phases it executes are an initial part of the list it
  is given, and a phase that fails is the last one executed and decides the outcome. For
  the executor: when CorruptionCheck fails, the phases executed are Clone and
  CorruptionCheck only, so none of Clean, Sync, VerifyRepo, PostProcess, Push executes,
  and the result is \<^verbatim>\<open>{success: false}\<close>.
\<close>

theorem runPhases_fail_fast:
  fixes run :: "phase \<Rightarrow> 'c \<Rightarrow> 'w \<Rightarrow> (error + unit) \<times> 'w"
    and env :: "('g, 'c, 'w) collaborators"
  shows "(runPhases_spec run ps config w = (s, w', log) \<longrightarrow>
            map fst log = take (length log) ps
          \<and> (\<forall>i e. i < length log \<and> snd (log ! i) = Inl e \<longrightarrow>
                Suc i = length log \<and> s = Inl e))
       \<and> (runPhases env = runPhases_spec run
          \<and> shipIt env options context w0 = (r, w1, log1)
          \<and> (CorruptionCheckPhase, Inl e1) \<in> set log1 \<longrightarrow>
            map fst log1 = [ClonePhase, CorruptionCheckPhase]
          \<and> r = Inr \<lparr>success = False\<rparr>)"
proof (intro conjI impI allI)
  assume "runPhases_spec run ps config w = (s, w', log)"
  then show "map fst log = take (length log) ps"
    by (rule runPhases_spec_prefix)
next
  fix i e
  assume run: "runPhases_spec run ps config w = (s, w', log)"
    and failed: "i < length log \<and> snd (log ! i) = Inl e"
  show "Suc i = length log" and "s = Inl e"
  proof -
    have "Suc i = length log \<and> s = Inl e"
    proof (cases s)
      case (Inr u)
      with run have "runPhases_spec run ps config w = (Inr u, w', log)" by simp
      from runPhases_spec_resolved [OF this] failed show ?thesis by auto
    next
      case (Inl e')
      with run have "runPhases_spec run ps config w = (Inl e', w', log)" by simp
      from runPhases_spec_rejected [OF this] obtain pre p where
        log: "log = map (\<lambda>p. (p, Inr ())) pre @ [(p, Inl e')]" by blast
      have "\<not> i < length pre"
      proof
        assume "i < length pre"
        with log have "snd (log ! i) = Inr ()" by (simp add: nth_append)
        with failed show False by simp
      qed
      with failed log have i: "i = length pre" by simp
      with log failed have "e = e'" by (simp add: nth_append)
      with i log Inl show ?thesis by simp
    qed
    then show "Suc i = length log" and "s = Inl e" by simp_all
  qed
next
  assume hyp: "runPhases env = runPhases_spec run
      \<and> shipIt env options context w0 = (r, w1, log1)
      \<and> (CorruptionCheckPhase, Inl e1) \<in> set log1"
  then have result: "shipIt env options context w0 = (r, w1, log1)"
    and entry: "(CorruptionCheckPhase, Inl e1) \<in> set log1" by simp_all
  from shipIt_log_empty_or_run [OF result] entry hyp obtain config s where
    run: "runPhases_spec run (phaseList options) config w0 = (s, w1, log1)"
    and r: "r = Inr \<lparr>success = (case s of Inl e \<Rightarrow> False | Inr u \<Rightarrow> True)\<rparr>"
    by auto
  have both: "map fst log1 = [ClonePhase, CorruptionCheckPhase] \<and> r = Inr \<lparr>success = False\<rparr>"
  proof (cases s)
    case (Inr u)
    with run have "runPhases_spec run (phaseList options) config w0 = (Inr u, w1, log1)"
      by simp
    from runPhases_spec_resolved [OF this] entry show ?thesis by auto
  next
    case (Inl e')
    with run have "runPhases_spec run (phaseList options) config w0 = (Inl e', w1, log1)"
      by simp
    from runPhases_spec_rejected [OF this] obtain pre p post where
      split: "phaseList options = pre @ p # post"
      and log: "log1 = map (\<lambda>p. (p, Inr ())) pre @ [(p, Inl e')]" by blast
    from entry log have "p = CorruptionCheckPhase" by auto
    with split have "pre = [ClonePhase]" by (simp add: standard_list_split)
    with log \<open>p = CorruptionCheckPhase\<close> r Inl show ?thesis by simp
  qed
  then show "map fst log1 = [ClonePhase, CorruptionCheckPhase]"
    and "r = Inr \<lparr>success = False\<rparr>" by simp_all
qed

theorem runPhases_fail_fast_witness:
  "map fst (snd (snd (shipIt (designed (Inr sampleGraph) 0 (failing [CorruptionCheckPhase]))
          (sampleOptions None None) (sampleContext (Some ''A'')) 0)))
     = [ClonePhase, CorruptionCheckPhase]
   \<and> fst (shipIt (designed (Inr sampleGraph) 0 (failing [CorruptionCheckPhase]))
          (sampleOptions None None) (sampleContext (Some ''A'')) 0)
     = Inr \<lparr>success = False\<rparr>"
proof -
  have entry: "(CorruptionCheckPhase, Inl (OtherError ''failed''))
      \<in> set [(ClonePhase, Inr ()), (CorruptionCheckPhase, Inl (OtherError ''failed''))]"
    by simp
  from runPhases_fail_fast [where run = "failing [CorruptionCheckPhase]"
      and env = "designed (Inr sampleGraph) 0 (failing [CorruptionCheckPhase])"
      and ?log1.0 = "[(ClonePhase, Inr ()), (CorruptionCheckPhase, Inl (OtherError ''failed''))]"
      and ?e1.0 = "OtherError ''failed''"]
    sample_runner sample_run_corrupt entry
  have "map fst [(ClonePhase, Inr ()),
      (CorruptionCheckPhase, Inl (OtherError ''failed'') :: error + unit)]
      = [ClonePhase, CorruptionCheckPhase]"
    by blast
  then show ?thesis by (simp add: sample_run_corrupt)
qed

text \<open>
  C4. Once the configuration is built, the outcome of the pipeline is reduced to one
  boolean: the result is \<^verbatim>\<open>{success: true}\<close> exactly when the promise of the runner
  resolves, which for the runner of the design is exactly when every phase of the list
  completed, and \<^verbatim>\<open>{success: false}\<close> exactly when it rejects, that is when a phase
  failed; the result carries neither the error nor the phase.
\<close>

theorem shipIt_result_is_boolean:
  assumes built: "buildConfig env options context = Inr config"
    and result: "shipIt env options context w = (r, w', log)"
  shows "(r = Inr \<lparr>success = True\<rparr> \<or> r = Inr \<lparr>success = False\<rparr>)
       \<and> (r = Inr \<lparr>success = True\<rparr>
            \<longleftrightarrow> (\<exists>u. fst (runPhases env (phaseList options) config w) = Inr u))
       \<and> (r = Inr \<lparr>success = False\<rparr>
            \<longleftrightarrow> (\<exists>e. fst (runPhases env (phaseList options) config w) = Inl e))
       \<and> (runPhases env = runPhases_spec run \<longrightarrow>
            (r = Inr \<lparr>success = True\<rparr>
              \<longleftrightarrow> log = map (\<lambda>p. (p, Inr ())) (phaseList options))
          \<and> (r = Inr \<lparr>success = False\<rparr>
              \<longleftrightarrow> (\<exists>p e. (p, Inl e) \<in> set log)))"
proof -
  obtain s w1 log1 where run: "runPhases env (phaseList options) config w = (s, w1, log1)"
    by (cases "runPhases env (phaseList options) config w")
  from shipIt_built [OF built run] result
  have r: "r = Inr \<lparr>success = (case s of Inl e \<Rightarrow> False | Inr u \<Rightarrow> True)\<rparr>"
    and eq: "w' = w1" "log = log1" by simp_all
  have generic: "(r = Inr \<lparr>success = True\<rparr> \<or> r = Inr \<lparr>success = False\<rparr>)
       \<and> (r = Inr \<lparr>success = True\<rparr>
            \<longleftrightarrow> (\<exists>u. fst (runPhases env (phaseList options) config w) = Inr u))
       \<and> (r = Inr \<lparr>success = False\<rparr>
            \<longleftrightarrow> (\<exists>e. fst (runPhases env (phaseList options) config w) = Inl e))"
    using r run by (cases s) simp_all
  have designed: "(r = Inr \<lparr>success = True\<rparr>
              \<longleftrightarrow> log = map (\<lambda>p. (p, Inr ())) (phaseList options))
          \<and> (r = Inr \<lparr>success = False\<rparr>
              \<longleftrightarrow> (\<exists>p e. (p, Inl e) \<in> set log))"
    if runner: "runPhases env = runPhases_spec run"
  proof (cases s)
    case (Inr u)
    with run runner have "runPhases_spec run (phaseList options) config w = (Inr u, w1, log1)"
      by simp
    from runPhases_spec_resolved [OF this] r Inr eq show ?thesis by auto
  next
    case (Inl e)
    with run runner have "runPhases_spec run (phaseList options) config w = (Inl e, w1, log1)"
      by simp
    from runPhases_spec_rejected [OF this] obtain pre p where
      log: "log1 = map (\<lambda>p. (p, Inr ())) pre @ [(p, Inl e)]" by blast
    then have "(p, Inl e) \<in> set log" using eq by simp
    moreover have "log \<noteq> map (\<lambda>p. (p, Inr ())) (phaseList options)"
      using \<open>(p, Inl e) \<in> set log\<close> by auto
    ultimately show ?thesis using r Inl by auto
  qed
  from generic designed show ?thesis by blast
qed

theorem shipIt_result_is_boolean_witness:
  "fst (shipIt (designed (Inr sampleGraph) 0 (failing [SyncPhase]))
          (sampleOptions None None) (sampleContext (Some ''A'')) 0) = Inr \<lparr>success = False\<rparr>
   \<and> (\<exists>p e. (p, Inl e) \<in> set (snd (snd (shipIt (designed (Inr sampleGraph) 0
          (failing [SyncPhase])) (sampleOptions None None) (sampleContext (Some ''A'')) 0))))"
proof -
  from shipIt_result_is_boolean [OF sample_config_A sample_run_sync_fails,
      where run = "failing [SyncPhase]"] sample_runner
  have "\<exists>p e. (p, Inl e) \<in> set [(ClonePhase, Inr ()), (CorruptionCheckPhase, Inr ()),
      (CleanPhase, Inr ()), (SyncPhase, Inl (OtherError ''failed'') :: error + unit)]"
    by blast
  then show ?thesis by (simp add: sample_run_sync_fails)
qed

section \<open>Properties of the configuration\<close>

lemma shipConfigOptions_whole_workspace:
  assumes "\<not> (\<exists>name. projectName context = Some name \<and> name \<noteq> [] \<and> name \<noteq> ''workspace'')"
  shows "shipConfigOptions env options context g =
    Inr \<lparr>sourcePath = ExecutorContext.root context,
         maxWarnings = ShipExecutorOptions.maxWarnings options,
         destinationRepoURL = repo options,
         destinationBranch = branch options,
         project = None, projectRoot = None, dependencies = None,
         dependents = None, workspace = None\<rparr>"
  using assms by (auto simp: shipConfigOptions_def Let_def split: option.splits)

lemma shipConfigOptions_single_project:
  assumes "projectName context = Some name" "name \<noteq> []" "name \<noteq> ''workspace''"
  shows "shipConfigOptions env options context g =
    (case findDependencies env g name of
       Inl e \<Rightarrow> Inl e
     | Inr deps \<Rightarrow>
        (case findDependents env g name of
           Inl e \<Rightarrow> Inl e
         | Inr dpts \<Rightarrow>
            (case findProjectNames env (projects (ExecutorContext.workspace context)) of
               Inl e \<Rightarrow> Inl e
             | Inr names \<Rightarrow>
                Inr \<lparr>sourcePath = ExecutorContext.root context,
                     maxWarnings = ShipExecutorOptions.maxWarnings options,
                     destinationRepoURL = repo options,
                     destinationBranch = branch options,
                     project = Some name,
                     projectRoot = map_option ProjectConfiguration.root
                       (map_of (projects (ExecutorContext.workspace context)) name),
                     dependencies = Some deps, dependents = Some dpts,
                     workspace = Some names\<rparr>)))"
  using assms by (simp add: shipConfigOptions_def Let_def split: sum.splits)

lemma sample_literal_unlisted:
  "shipConfigOptions stubbed (sampleOptions None None) (sampleContext (Some ''D'')) () =
    Inr \<lparr>sourcePath = ''/monorepo'', maxWarnings = None,
         destinationRepoURL = ''git@example.org:dest.git'', destinationBranch = ''main'',
         project = Some ''D'', projectRoot = None, dependencies = Some [],
         dependents = Some [], workspace = Some [''A'', ''B'', ''C'']\<rparr>"
  by (simp add: stubbed_def sample_defs)

lemma sample_literal_listed:
  "shipConfigOptions stubbed (sampleOptions None None) (sampleContext (Some ''B'')) () =
    Inr \<lparr>sourcePath = ''/monorepo'', maxWarnings = None,
         destinationRepoURL = ''git@example.org:dest.git'', destinationBranch = ''main'',
         project = Some ''B'', projectRoot = Some ''libs/b'', dependencies = Some [],
         dependents = Some [], workspace = Some [''A'', ''B'', ''C'']\<rparr>"
  by (simp add: stubbed_def sample_defs)

lemma shipConfigOptions_maxWarnings:
  "shipConfigOptions env options context g = Inr literal \<Longrightarrow>
    ShipConfigOptions.maxWarnings literal = ShipExecutorOptions.maxWarnings options"
  by (auto simp: shipConfigOptions_def Let_def split: option.splits if_splits sum.splits)

lemma buildConfig_threshold:
  assumes "newShipConfig env = ShipConfig_spec dflt"
    and "buildConfig env options context = Inr config"
  shows "threshold config =
    (case ShipExecutorOptions.maxWarnings options of None \<Rightarrow> dflt | Some m \<Rightarrow> m)"
proof -
  from assms obtain g literal where
    "shipConfigOptions env options context g = Inr literal"
    and "ShipConfig_spec dflt literal = Inr config"
    by (auto simp: buildConfig_def split: sum.splits)
  then show ?thesis
    by (auto simp: ShipConfig_spec_def dest: shipConfigOptions_maxWarnings)
qed

text \<open>
  C6. As stated the claim fails for \<^verbatim>\<open>projectRoot\<close>: the executor reads it with
  \<^verbatim>\<open>context.workspace.projects[name]?.root\<close>, which is \<^verbatim>\<open>undefined\<close> when
  the workspace table has no entry for the named project. Here the context names project
  \<open>D\<close>, which the table does not list: \<open>project\<close>, \<open>dependencies\<close>,
  \<open>dependents\<close> and \<open>workspace\<close> are set, \<open>projectRoot\<close> is not.
\<close>

theorem projectRoot_not_populated:
  "projectName (sampleContext (Some ''D'')) = Some ''D''
   \<and> shipConfigOptions stubbed (sampleOptions None None) (sampleContext (Some ''D'')) () =
      Inr \<lparr>sourcePath = ''/monorepo'', maxWarnings = None,
           destinationRepoURL = ''git@example.org:dest.git'', destinationBranch = ''main'',
           project = Some ''D'', projectRoot = None, dependencies = Some [],
           dependents = Some [], workspace = Some [''A'', ''B'', ''C'']\<rparr>"
  by (simp add: sample_literal_unlisted) (simp add: sampleContext_def)

text \<open>
  C6, amended. Whenever the constructor's argument is built: \<open>project\<close>,
  \<open>dependencies\<close>, \<open>dependents\<close> and \<open>workspace\<close> are set if and only if the
  context names a project, by a non-empty name other than \<^verbatim>\<open>'workspace'\<close>;
  \<open>projectRoot\<close> is set if and only if, in addition, the workspace table lists that
  project; otherwise all five are absent, not empty collections. When set, they hold the
  name, the listed root and the answers of the three resolver calls.
\<close>

theorem shipConfigOptions_single_project_fields:
  assumes literal: "shipConfigOptions env options context g = Inr literal"
  shows "(project literal \<noteq> None
            \<longleftrightarrow> (\<exists>name. projectName context = Some name \<and> name \<noteq> [] \<and> name \<noteq> ''workspace''))
       \<and> (dependencies literal \<noteq> None
            \<longleftrightarrow> (\<exists>name. projectName context = Some name \<and> name \<noteq> [] \<and> name \<noteq> ''workspace''))
       \<and> (dependents literal \<noteq> None
            \<longleftrightarrow> (\<exists>name. projectName context = Some name \<and> name \<noteq> [] \<and> name \<noteq> ''workspace''))
       \<and> (ShipConfigOptions.workspace literal \<noteq> None
            \<longleftrightarrow> (\<exists>name. projectName context = Some name \<and> name \<noteq> [] \<and> name \<noteq> ''workspace''))
       \<and> (projectRoot literal \<noteq> None
            \<longleftrightarrow> (\<exists>name. projectName context = Some name \<and> name \<noteq> [] \<and> name \<noteq> ''workspace''
                  \<and> name \<in> fst ` set (projects (ExecutorContext.workspace context))))
       \<and> (project literal = None \<longrightarrow>
            projectRoot literal = None \<and> dependencies literal = None
          \<and> dependents literal = None \<and> ShipConfigOptions.workspace literal = None)
       \<and> (\<forall>name. project literal = Some name \<longrightarrow>
            projectName context = Some name
          \<and> projectRoot literal = map_option ProjectConfiguration.root
               (map_of (projects (ExecutorContext.workspace context)) name)
          \<and> map_option Inr (dependencies literal) = Some (findDependencies env g name)
          \<and> map_option Inr (dependents literal) = Some (findDependents env g name)
          \<and> map_option Inr (ShipConfigOptions.workspace literal)
              = Some (findProjectNames env (projects (ExecutorContext.workspace context))))"
proof (cases "\<exists>name. projectName context = Some name \<and> name \<noteq> [] \<and> name \<noteq> ''workspace''")
  case False
  from shipConfigOptions_whole_workspace [OF False, of env options g] literal
  have "literal = \<lparr>sourcePath = ExecutorContext.root context,
         maxWarnings = ShipExecutorOptions.maxWarnings options,
         destinationRepoURL = repo options,
         destinationBranch = branch options,
         project = None, projectRoot = None, dependencies = None,
         dependents = None, workspace = None\<rparr>"
    by simp
  with False show ?thesis by auto
next
  case True
  then obtain name where name: "projectName context = Some name" "name \<noteq> []"
    "name \<noteq> ''workspace''" by blast
  have root: "map_option ProjectConfiguration.root
      (map_of (projects (ExecutorContext.workspace context)) name) \<noteq> None
    \<longleftrightarrow> name \<in> fst ` set (projects (ExecutorContext.workspace context))"
    by (simp add: map_of_eq_None_iff)
  from literal show ?thesis
    unfolding shipConfigOptions_single_project [OF name]
    using name root by (auto split: sum.splits)
qed

theorem shipConfigOptions_single_project_fields_witness:
  "project \<lparr>sourcePath = ''/monorepo'', maxWarnings = None,
         destinationRepoURL = ''git@example.org:dest.git'', destinationBranch = ''main'',
         project = Some ''B'', projectRoot = Some ''libs/b'', dependencies = Some [],
         dependents = Some [], workspace = Some [''A'', ''B'', ''C'']\<rparr> \<noteq> None
   \<and> (\<exists>name. projectName (sampleContext (Some ''B'')) = Some name \<and> name \<noteq> []
        \<and> name \<noteq> ''workspace''
        \<and> name \<in> fst ` set (projects (ExecutorContext.workspace (sampleContext (Some ''B'')))))"
proof -
  from shipConfigOptions_single_project_fields [OF sample_literal_listed]
  have "projectRoot \<lparr>sourcePath = ''/monorepo'', maxWarnings = None,
         destinationRepoURL = ''git@example.org:dest.git'', destinationBranch = ''main'',
         project = Some ''B'', projectRoot = Some ''libs/b'', dependencies = Some [],
         dependents = Some [], workspace = Some [''A'', ''B'', ''C'']\<rparr> \<noteq> None
    \<longleftrightarrow> (\<exists>name. projectName (sampleContext (Some ''B'')) = Some name \<and> name \<noteq> []
        \<and> name \<noteq> ''workspace''
        \<and> name \<in> fst ` set (projects (ExecutorContext.workspace (sampleContext (Some ''B'')))))"
    by blast
  then show ?thesis by simp
qed

text \<open>
  C9. With the resolver of the design, an invocation that names a target project (a
  non-empty name other than \<^verbatim>\<open>'workspace'\<close>) which is not found in the project graph
  is rejected with the resolution error before the pipeline starts: the promise of
  \<^verbatim>\<open>shipIt\<close> rejects, the state is untouched and no phase has executed.
\<close>

theorem shipIt_unknown_project:
  assumes resolver: "findDependencies env = findDependencies_spec"
    and graph: "createProjectGraphAsync env = Inr g"
    and target: "projectName context = Some name" "name \<noteq> []" "name \<noteq> ''workspace''"
    and unknown: "name \<notin> fst ` set g"
  shows "shipIt env options context w = (Inl (ResolutionError name), w, [])"
proof -
  from resolver unknown have "findDependencies env g name = Inl (ResolutionError name)"
    by (simp add: findDependencies_spec_def)
  with target have "shipConfigOptions env options context g = Inl (ResolutionError name)"
    by (simp add: shipConfigOptions_single_project)
  with graph have "buildConfig env options context = Inl (ResolutionError name)"
    by (simp add: buildConfig_def)
  then show ?thesis by (rule shipIt_not_built)
qed

theorem shipIt_unknown_project_witness:
  "shipIt (designed (Inr sampleGraph) 0 (failing [])) (sampleOptions None None)
      (sampleContext (Some ''D'')) 0 = (Inl (ResolutionError ''D''), 0, [])"
proof -
  have resolver: "findDependencies (designed (Inr sampleGraph) 0 (failing []))
      = findDependencies_spec"
    and graph: "createProjectGraphAsync (designed (Inr sampleGraph) 0 (failing []))
      = Inr sampleGraph"
    by (simp_all add: designed_def)
  have target: "projectName (sampleContext (Some ''D'')) = Some ''D''"
    by (simp add: sampleContext_def)
  have unknown: "''D'' \<notin> fst ` set sampleGraph"
    by (simp add: sampleGraph_def)
  from shipIt_unknown_project [OF resolver graph target _ _ unknown]
  show ?thesis by simp
qed

text \<open>
  C10. Only a rejection of \<^verbatim>\<open>runPhases\<close> becomes \<^verbatim>\<open>{success: false}\<close>. When
  the creation of the project graph, one of the resolver calls or the construction of
  the configuration throws, the promise of \<^verbatim>\<open>shipIt\<close> rejects with that error and
  no phase has executed; the result is \<^verbatim>\<open>{success: false}\<close> exactly when the
  configuration was built and the promise of \<^verbatim>\<open>runPhases\<close> rejected.
\<close>

theorem shipIt_rejects_before_pipeline:
  "(createProjectGraphAsync env = Inl e \<longrightarrow> shipIt env options context w = (Inl e, w, []))
 \<and> (createProjectGraphAsync env = Inr g \<and> projectName context = Some name \<and> name \<noteq> []
      \<and> name \<noteq> ''workspace'' \<and> findDependencies env g name = Inl e
    \<longrightarrow> shipIt env options context w = (Inl e, w, []))
 \<and> (createProjectGraphAsync env = Inr g \<and> projectName context = Some name \<and> name \<noteq> []
      \<and> name \<noteq> ''workspace'' \<and> findDependencies env g name = Inr deps
      \<and> findDependents env g name = Inl e
    \<longrightarrow> shipIt env options context w = (Inl e, w, []))
 \<and> (createProjectGraphAsync env = Inr g \<and> projectName context = Some name \<and> name \<noteq> []
      \<and> name \<noteq> ''workspace'' \<and> findDependencies env g name = Inr deps
      \<and> findDependents env g name = Inr dpts
      \<and> findProjectNames env (projects (ExecutorContext.workspace context)) = Inl e
    \<longrightarrow> shipIt env options context w = (Inl e, w, []))
 \<and> (createProjectGraphAsync env = Inr g \<and> shipConfigOptions env options context g = Inr literal
      \<and> newShipConfig env literal = Inl e
    \<longrightarrow> shipIt env options context w = (Inl e, w, []))
 \<and> (fst (shipIt env options context w) = Inr \<lparr>success = False\<rparr>
    \<longleftrightarrow> (\<exists>config e'. buildConfig env options context = Inr config
          \<and> fst (runPhases env (phaseList options) config w) = Inl e'))"
proof (intro conjI impI)
  assume "createProjectGraphAsync env = Inl e"
  then have "buildConfig env options context = Inl e"
    by (simp add: buildConfig_def)
  then show "shipIt env options context w = (Inl e, w, [])"
    by (rule shipIt_not_built)
next
  assume h: "createProjectGraphAsync env = Inr g \<and> projectName context = Some name \<and> name \<noteq> []
      \<and> name \<noteq> ''workspace'' \<and> findDependencies env g name = Inl e"
  then have "shipConfigOptions env options context g = Inl e"
    by (simp add: shipConfigOptions_single_project)
  with h have "buildConfig env options context = Inl e"
    by (simp add: buildConfig_def)
  then show "shipIt env options context w = (Inl e, w, [])"
    by (rule shipIt_not_built)
next
  assume h: "createProjectGraphAsync env = Inr g \<and> projectName context = Some name \<and> name \<noteq> []
      \<and> name \<noteq> ''workspace'' \<and> findDependencies env g name = Inr deps
      \<and> findDependents env g name = Inl e"
  then have "shipConfigOptions env options context g = Inl e"
    by (simp add: shipConfigOptions_single_project)
  with h have "buildConfig env options context = Inl e"
    by (simp add: buildConfig_def)
  then show "shipIt env options context w = (Inl e, w, [])"
    by (rule shipIt_not_built)
next
  assume h: "createProjectGraphAsync env = Inr g \<and> projectName context = Some name \<and> name \<noteq> []
      \<and> name \<noteq> ''workspace'' \<and> findDependencies env g name = Inr deps
      \<and> findDependents env g name = Inr dpts
      \<and> findProjectNames env (projects (ExecutorContext.workspace context)) = Inl e"
  then have "shipConfigOptions env options context g = Inl e"
    by (simp add: shipConfigOptions_single_project)
  with h have "buildConfig env options context = Inl e"
    by (simp add: buildConfig_def)
  then show "shipIt env options context w = (Inl e, w, [])"
    by (rule shipIt_not_built)
next
  assume h: "createProjectGraphAsync env = Inr g
      \<and> shipConfigOptions env options context g = Inr literal
      \<and> newShipConfig env literal = Inl e"
  then have "buildConfig env options context = Inl e"
    by (simp add: buildConfig_def)
  then show "shipIt env options context w = (Inl e, w, [])"
    by (rule shipIt_not_built)
next
  show "fst (shipIt env options context w) = Inr \<lparr>success = False\<rparr>
    \<longleftrightarrow> (\<exists>config e'. buildConfig env options context = Inr config
          \<and> fst (runPhases env (phaseList options) config w) = Inl e')"
  proof (cases "buildConfig env options context")
    case (Inl e0)
    then show ?thesis by (simp add: shipIt_not_built)
  next
    case (Inr config)
    obtain s w1 log1 where run: "runPhases env (phaseList options) config w = (s, w1, log1)"
      by (cases "runPhases env (phaseList options) config w")
    from shipIt_built [OF Inr run] Inr run show ?thesis
      by (cases s) simp_all
  qed
qed

theorem shipIt_rejects_before_pipeline_witness:
  "shipIt (designed (Inl (OtherError ''no graph'')) 0 (failing [])) (sampleOptions None None)
      (sampleContext (Some ''A'')) (0 :: nat) = (Inl (OtherError ''no graph''), 0, [])
   \<and> shipIt (stubbed\<lparr>newShipConfig := (\<lambda>literal. Inl (OtherError ''bad config''))\<rparr>)
        (sampleOptions None None) (sampleContext (Some ''B'')) 0
      = (Inl (OtherError ''bad config'') :: error + ShipResult, 0, [])"
proof -
  have "createProjectGraphAsync (designed (Inl (OtherError ''no graph'')) 0 (failing []))
      = Inl (OtherError ''no graph'')"
    by (simp add: designed_def)
  with shipIt_rejects_before_pipeline
    [where env = "designed (Inl (OtherError ''no graph'')) 0 (failing [])"
       and e = "OtherError ''no graph''" and options = "sampleOptions None None"
       and w = "0 :: nat"]
  have first: "shipIt (designed (Inl (OtherError ''no graph'')) 0 (failing []))
      (sampleOptions None None) (sampleContext (Some ''A'')) (0 :: nat)
      = (Inl (OtherError ''no graph''), 0, [])"
    by blast
  have "createProjectGraphAsync
        (stubbed\<lparr>newShipConfig := (\<lambda>literal. Inl (OtherError ''bad config''))\<rparr>) = Inr ()"
    and "newShipConfig
        (stubbed\<lparr>newShipConfig := (\<lambda>literal. Inl (OtherError ''bad config''))\<rparr>)
        \<lparr>sourcePath = ''/monorepo'', maxWarnings = None,
         destinationRepoURL = ''git@example.org:dest.git'', destinationBranch = ''main'',
         project = Some ''B'', projectRoot = Some ''libs/b'', dependencies = Some [],
         dependents = Some [], workspace = Some [''A'', ''B'', ''C'']\<rparr>
        = Inl (OtherError ''bad config'')"
    and "shipConfigOptions
        (stubbed\<lparr>newShipConfig := (\<lambda>literal. Inl (OtherError ''bad config''))\<rparr>)
        (sampleOptions None None) (sampleContext (Some ''B'')) () =
      Inr \<lparr>sourcePath = ''/monorepo'', maxWarnings = None,
         destinationRepoURL = ''git@example.org:dest.git'', destinationBranch = ''main'',
         project = Some ''B'', projectRoot = Some ''libs/b'', dependencies = Some [],
         dependents = Some [], workspace = Some [''A'', ''B'', ''C'']\<rparr>"
    by (simp_all add: stubbed_def sample_defs)
  with shipIt_rejects_before_pipeline
    [where env = "stubbed\<lparr>newShipConfig := (\<lambda>literal. Inl (OtherError ''bad config''))\<rparr>"
       and e = "OtherError ''bad config''" and options = "sampleOptions None None"
       and g = "()" and w = "0 :: nat"]
  have "shipIt (stubbed\<lparr>newShipConfig := (\<lambda>literal. Inl (OtherError ''bad config''))\<rparr>)
        (sampleOptions None None) (sampleContext (Some ''B'')) 0
      = (Inl (OtherError ''bad config'') :: error + ShipResult, 0, [])"
    by blast
  with first show ?thesis by blast
qed

section \<open>Properties of the verification phase\<close>

lemma phaseList_around_verify:
  "phaseList options = [ClonePhase, CorruptionCheckPhase, CleanPhase, SyncPhase]
    @ VerifyRepoPhase # PostProcessPhase # (if dryRun options = Some True then [] else [PushPhase])"
  by (simp add: phaseList_def)

lemma verifyRepo_fails_iff:
  "fst (phases_spec others detectedWarnings missingRequired VerifyRepoPhase config w) \<noteq> Inr ()
    \<longleftrightarrow> threshold config < detectedWarnings w \<or> missingRequired w"
  by (simp add: phases_spec_def VerifyRepoPhase_spec_def)

lemma run_from_verify:
  assumes reaches: "runPhases_spec (phases_spec others detectedWarnings missingRequired)
        [ClonePhase, CorruptionCheckPhase, CleanPhase, SyncPhase] config w = (Inr (), w1, log1)"
  shows "runPhases_spec (phases_spec others detectedWarnings missingRequired)
        (phaseList options) config w =
    (if threshold config < detectedWarnings w1 \<or> missingRequired w1
     then (Inl (PolicyError ''VerifyRepo''), w1,
           log1 @ [(VerifyRepoPhase, Inl (PolicyError ''VerifyRepo''))])
     else (case runPhases_spec (phases_spec others detectedWarnings missingRequired)
                 (PostProcessPhase # (if dryRun options = Some True then [] else [PushPhase]))
                 config w1 of
             (s, w2, log2) \<Rightarrow> (s, w2, log1 @ (VerifyRepoPhase, Inr ()) # log2)))"
proof -
  have verify: "phases_spec others detectedWarnings missingRequired VerifyRepoPhase config w1 =
      (if threshold config < detectedWarnings w1 \<or> missingRequired w1
       then (Inl (PolicyError ''VerifyRepo''), w1) else (Inr (), w1))"
    by (simp add: phases_spec_def VerifyRepoPhase_spec_def)
  have "runPhases_spec (phases_spec others detectedWarnings missingRequired)
      (VerifyRepoPhase # PostProcessPhase
         # (if dryRun options = Some True then [] else [PushPhase])) config w1 =
    (if threshold config < detectedWarnings w1 \<or> missingRequired w1
     then (Inl (PolicyError ''VerifyRepo''), w1, [(VerifyRepoPhase, Inl (PolicyError ''VerifyRepo''))])
     else (case runPhases_spec (phases_spec others detectedWarnings missingRequired)
                 (PostProcessPhase # (if dryRun options = Some True then [] else [PushPhase]))
                 config w1 of
             (s, w2, log2) \<Rightarrow> (s, w2, (VerifyRepoPhase, Inr ()) # log2)))"
    by (simp only: runPhases_spec.simps(2) [of _ VerifyRepoPhase] verify)
       (simp split: prod.splits)
  then show ?thesis
    unfolding phaseList_around_verify runPhases_spec_append reaches
    by (simp split: prod.splits)
qed

lemma sample_reaches_verify:
  "runPhases_spec (phases_spec (failing []) detectedWarnings missingRequired)
      [ClonePhase, CorruptionCheckPhase, CleanPhase, SyncPhase] config 0 =
    (Inr (), 4,
     [(ClonePhase, Inr ()), (CorruptionCheckPhase, Inr ()), (CleanPhase, Inr ()),
      (SyncPhase, Inr ())])"
  by (simp add: phases_spec_def failing_def)

lemma sample_after_verify:
  "runPhases_spec (phases_spec (failing []) detectedWarnings missingRequired)
      [PostProcessPhase, PushPhase] config 4 =
    (Inr (), 6, [(PostProcessPhase, Inr ()), (PushPhase, Inr ())])"
  by (simp add: phases_spec_def failing_def)

text \<open>
  C5. As stated the claim fails in one direction: a run that reaches VerifyRepo can fail,
  with Push never executed, although VerifyRepo detects nothing. Here the threshold is 1,
  VerifyRepo detects one warning and no missing file and completes, and PostProcess fails.
\<close>

theorem run_fails_after_verification_passed:
  "map_sum id threshold (buildConfig (designed (Inr sampleGraph) 0 (oneWarning [PostProcessPhase]))
      (sampleOptions (Some 1) None) (sampleContext (Some ''A''))) = Inr 1
   \<and> shipIt (designed (Inr sampleGraph) 0 (oneWarning [PostProcessPhase]))
        (sampleOptions (Some 1) None) (sampleContext (Some ''A'')) 0 =
      (Inr \<lparr>success = False\<rparr>, 4,
       [(ClonePhase, Inr ()), (CorruptionCheckPhase, Inr ()), (CleanPhase, Inr ()),
        (SyncPhase, Inr ()), (VerifyRepoPhase, Inr ()),
        (PostProcessPhase, Inl (OtherError ''failed''))])"
  by (simp add: sample_defs oneWarning_def phases_spec_def VerifyRepoPhase_spec_def)

text \<open>
  C5, amended. For a run that reaches VerifyRepo (the four phases before it completed,
  leaving the working copy \<open>w1\<close>), with the phase and the runner of the design: the run
  fails at VerifyRepo if and only if VerifyRepo detects, in \<open>w1\<close>, a warning count
  strictly greater than the threshold or a missing required file; then the result is
  \<^verbatim>\<open>{success: false}\<close>, VerifyRepo is the last phase executed and Push never
  executes. Otherwise VerifyRepo completes and the run goes on with PostProcess (and
  Push, unless it is a dry run), and succeeds exactly when these complete. With
  \<^verbatim>\<open>maxWarnings = 0\<close> and one warning the result is \<^verbatim>\<open>{success: false}\<close>; with
  \<^verbatim>\<open>maxWarnings = 1\<close>, the same warning, no missing file and no later failure it is
  \<^verbatim>\<open>{success: true}\<close>.
\<close>

theorem verifyRepo_gate:
  fixes env :: "('g, ShipConfig, 'w) collaborators"
  assumes runner:
      "runPhases env = runPhases_spec (phases_spec others detectedWarnings missingRequired)"
    and built: "buildConfig env options context = Inr config"
    and reaches: "runPhases_spec (phases_spec others detectedWarnings missingRequired)
        [ClonePhase, CorruptionCheckPhase, CleanPhase, SyncPhase] config w = (Inr (), w1, log1)"
  shows "(threshold config < detectedWarnings w1 \<or> missingRequired w1 \<longrightarrow>
            shipIt env options context w =
              (Inr \<lparr>success = False\<rparr>, w1,
               log1 @ [(VerifyRepoPhase, Inl (PolicyError ''VerifyRepo''))])
          \<and> PushPhase \<notin> fst ` set (snd (snd (shipIt env options context w))))
       \<and> (\<not> (threshold config < detectedWarnings w1 \<or> missingRequired w1) \<longrightarrow>
            (\<exists>s w2 log2.
                runPhases_spec (phases_spec others detectedWarnings missingRequired)
                  (PostProcessPhase # (if dryRun options = Some True then [] else [PushPhase]))
                  config w1 = (s, w2, log2)
              \<and> shipIt env options context w =
                  (Inr \<lparr>success = (s = Inr ())\<rparr>, w2, log1 @ (VerifyRepoPhase, Inr ()) # log2)))
       \<and> ((\<exists>e. (VerifyRepoPhase, Inl e) \<in> set (snd (snd (shipIt env options context w))))
            \<longleftrightarrow> threshold config < detectedWarnings w1 \<or> missingRequired w1)
       \<and> (newShipConfig env = ShipConfig_spec dflt
            \<and> ShipExecutorOptions.maxWarnings options = Some 0 \<and> detectedWarnings w1 = 1
          \<longrightarrow> fst (shipIt env options context w) = Inr \<lparr>success = False\<rparr>)
       \<and> (newShipConfig env = ShipConfig_spec dflt
            \<and> ShipExecutorOptions.maxWarnings options = Some 1 \<and> detectedWarnings w1 = 1
            \<and> \<not> missingRequired w1
            \<and> fst (runPhases_spec (phases_spec others detectedWarnings missingRequired)
                  (PostProcessPhase # (if dryRun options = Some True then [] else [PushPhase]))
                  config w1) = Inr ()
          \<longrightarrow> fst (shipIt env options context w) = Inr \<lparr>success = True\<rparr>)"
proof -
  let ?run = "phases_spec others detectedWarnings missingRequired"
  let ?later = "PostProcessPhase # (if dryRun options = Some True then [] else [PushPhase])"
  let ?violation = "threshold config < detectedWarnings w1 \<or> missingRequired w1"
  obtain s w2 log2 where later: "runPhases_spec ?run ?later config w1 = (s, w2, log2)"
    by (cases "runPhases_spec ?run ?later config w1")
  have early: "map fst log1 = [ClonePhase, CorruptionCheckPhase, CleanPhase, SyncPhase]"
    using runPhases_spec_resolved [OF reaches] by (simp add: comp_def)
  have late: "map fst log2 = take (length log2) ?later"
    using later by (rule runPhases_spec_prefix)
  have stopped: "shipIt env options context w =
      (Inr \<lparr>success = False\<rparr>, w1, log1 @ [(VerifyRepoPhase, Inl (PolicyError ''VerifyRepo''))])"
    if "?violation"
    using shipIt_built [OF built, of w] that
    by (simp add: runner run_from_verify [OF reaches])
  have continued: "shipIt env options context w =
      (Inr \<lparr>success = (s = Inr ())\<rparr>, w2, log1 @ (VerifyRepoPhase, Inr ()) # log2)"
    if "\<not> ?violation"
    using shipIt_built [OF built, of w] that later
    by (cases s) (simp_all add: runner run_from_verify [OF reaches])
  have no_push: "PushPhase \<notin> fst ` set (snd (snd (shipIt env options context w)))"
    if "?violation"
  proof -
    have "PushPhase \<notin> set (map fst log1)" unfolding early by simp
    then show ?thesis by (simp add: stopped [OF that] image_iff)
  qed
  have entry: "(\<exists>e. (VerifyRepoPhase, Inl e) \<in> set (snd (snd (shipIt env options context w))))
      \<longleftrightarrow> ?violation"
  proof (cases "?violation")
    case True
    then show ?thesis by (auto simp: stopped)
  next
    case False
    have "VerifyRepoPhase \<notin> set (map fst log1)" unfolding early by simp
    then have one: "(VerifyRepoPhase, Inl e) \<notin> set log1" for e by force
    have "VerifyRepoPhase \<notin> set (map fst log2)"
    proof
      assume "VerifyRepoPhase \<in> set (map fst log2)"
      then have "VerifyRepoPhase \<in> set ?later"
        by (subst (asm) late) (rule in_set_takeD)
      then show False by (simp split: if_splits)
    qed
    then have two: "(VerifyRepoPhase, Inl e) \<notin> set log2" for e by force
    from False one two show ?thesis by (simp add: continued)
  qed
  have zero: "fst (shipIt env options context w) = Inr \<lparr>success = False\<rparr>"
    if "newShipConfig env = ShipConfig_spec dflt
        \<and> ShipExecutorOptions.maxWarnings options = Some 0 \<and> detectedWarnings w1 = 1"
  proof -
    from that have "newShipConfig env = ShipConfig_spec dflt" by simp
    from buildConfig_threshold [OF this built] that have "threshold config = 0"
      by simp
    with that have "?violation" by simp
    then show ?thesis by (simp add: stopped)
  qed
  have one: "fst (shipIt env options context w) = Inr \<lparr>success = True\<rparr>"
    if "newShipConfig env = ShipConfig_spec dflt
        \<and> ShipExecutorOptions.maxWarnings options = Some 1 \<and> detectedWarnings w1 = 1
        \<and> \<not> missingRequired w1
        \<and> fst (runPhases_spec ?run ?later config w1) = Inr ()"
  proof -
    from that have "newShipConfig env = ShipConfig_spec dflt" by simp
    from buildConfig_threshold [OF this built] that have "threshold config = 1"
      by simp
    with that have "\<not> ?violation" by simp
    moreover from that later have "s = Inr ()" by simp
    ultimately show ?thesis by (simp add: continued)
  qed
  from stopped no_push continued later entry zero one show ?thesis
    by blast
qed

theorem verifyRepo_gate_witness:
  "fst (shipIt (designed (Inr sampleGraph) 0 (oneWarning [])) (sampleOptions (Some 0) None)
          (sampleContext (Some ''A'')) 0) = Inr \<lparr>success = False\<rparr>
   \<and> fst (shipIt (designed (Inr sampleGraph) 0 (oneWarning [])) (sampleOptions (Some 1) None)
          (sampleContext (Some ''A'')) 0) = Inr \<lparr>success = True\<rparr>"
proof -
  have runner: "runPhases (designed (Inr sampleGraph) 0 (oneWarning []))
      = runPhases_spec (phases_spec (failing []) (\<lambda>w. 1) (\<lambda>w. False))"
    by (simp add: designed_def oneWarning_def)
  have constructor: "newShipConfig (designed (Inr sampleGraph) 0 (oneWarning []))
      = ShipConfig_spec 0"
    by (simp add: designed_def)
  have zero: "ShipExecutorOptions.maxWarnings (sampleOptions (Some 0) None) = Some 0"
    and one: "ShipExecutorOptions.maxWarnings (sampleOptions (Some 1) None) = Some 1"
    and standard: "dryRun (sampleOptions (Some 1) None) \<noteq> Some True"
    by (simp_all add: sampleOptions_def)
  from verifyRepo_gate [OF runner sample_config_A [where m = "Some 0" and d = None]
      sample_reaches_verify, where dflt = 0]
    constructor zero
  have first: "fst (shipIt (designed (Inr sampleGraph) 0 (oneWarning []))
      (sampleOptions (Some 0) None) (sampleContext (Some ''A'')) 0) = Inr \<lparr>success = False\<rparr>"
    by blast
  from verifyRepo_gate [OF runner sample_config_A [where m = "Some 1" and d = None]
      sample_reaches_verify, where dflt = 0]
    constructor one standard sample_after_verify
  have "fst (shipIt (designed (Inr sampleGraph) 0 (oneWarning []))
      (sampleOptions (Some 1) None) (sampleContext (Some ''A'')) 0) = Inr \<lparr>success = True\<rparr>"
    by simp
  with first show ?thesis by blast
qed

section \<open>Properties of the dependency resolver\<close>

lemma traverse_keeps_visited: "set visited \<subseteq> set (traverse g stack visited)"
  by (induction g stack visited rule: traverse.induct) auto

lemma traverse_visits_stack: "set stack \<subseteq> set (traverse g stack visited)"
proof (induction g stack visited rule: traverse.induct)
  case (1 g visited)
  show ?case by simp
next
  case (2 g n stack visited)
  show ?case
  proof (cases "n \<in> set visited")
    case True
    with 2 traverse_keeps_visited [of visited g stack] show ?thesis by auto
  next
    case False
    with 2 traverse_keeps_visited [of "n # visited" g "directDependencies g n @ stack"]
    show ?thesis by auto
  qed
qed

lemma traverse_distinct: "distinct visited \<Longrightarrow> distinct (traverse g stack visited)"
  by (induction g stack visited rule: traverse.induct) auto

lemma traverse_closed:
  "dependsOn g `` set visited \<subseteq> set visited \<union> set stack \<Longrightarrow>
    dependsOn g `` set (traverse g stack visited) \<subseteq> set (traverse g stack visited)"
proof (induction g stack visited rule: traverse.induct)
  case (1 g visited)
  then show ?case by simp
next
  case (2 g n stack visited)
  show ?case
  proof (cases "n \<in> set visited")
    case True
    with 2 show ?thesis by auto
  next
    case False
    have "dependsOn g `` set (n # visited)
        \<subseteq> set (n # visited) \<union> set (directDependencies g n @ stack)"
      using "2.prems" by (auto simp: dependsOn_def)
    with 2 False show ?thesis by simp
  qed
qed

lemma traverse_sound:
  "set (traverse g stack visited) \<subseteq> set visited \<union> (dependsOn g)\<^sup>* `` set stack"
proof (induction g stack visited rule: traverse.induct)
  case (1 g visited)
  show ?case by simp
next
  case (2 g n stack visited)
  show ?case
  proof (cases "n \<in> set visited")
    case True
    with 2 show ?thesis by auto
  next
    case False
    have step: "(dependsOn g)\<^sup>* `` set (directDependencies g n)
        \<subseteq> (dependsOn g)\<^sup>* `` {n}"
    proof
      fix x assume "x \<in> (dependsOn g)\<^sup>* `` set (directDependencies g n)"
      then obtain d where "d \<in> set (directDependencies g n)" "(d, x) \<in> (dependsOn g)\<^sup>*"
        by blast
      then have "(n, d) \<in> dependsOn g" by (simp add: dependsOn_def)
      from this \<open>(d, x) \<in> (dependsOn g)\<^sup>*\<close> have "(n, x) \<in> (dependsOn g)\<^sup>*"
        by (rule converse_rtrancl_into_rtrancl)
      then show "x \<in> (dependsOn g)\<^sup>* `` {n}" by blast
    qed
    from 2 False have "set (traverse g (n # stack) visited)
        \<subseteq> set (n # visited) \<union> (dependsOn g)\<^sup>* `` set (directDependencies g n @ stack)"
      by simp
    also have "\<dots> \<subseteq> set visited \<union> (dependsOn g)\<^sup>* `` set (n # stack)"
      using step by auto
    finally show ?thesis .
  qed
qed

lemma traverse_reachable: "set (traverse g [p] []) = (dependsOn g)\<^sup>* `` {p}"
proof
  show "set (traverse g [p] []) \<subseteq> (dependsOn g)\<^sup>* `` {p}"
    using traverse_sound [of g "[p]" "[]"] by simp
next
  have closed: "dependsOn g `` set (traverse g [p] []) \<subseteq> set (traverse g [p] [])"
    by (rule traverse_closed) simp
  have start: "p \<in> set (traverse g [p] [])"
    using traverse_visits_stack [of "[p]" g "[]"] by simp
  show "(dependsOn g)\<^sup>* `` {p} \<subseteq> set (traverse g [p] [])"
  proof
    fix x assume "x \<in> (dependsOn g)\<^sup>* `` {p}"
    then have "(p, x) \<in> (dependsOn g)\<^sup>*" by simp
    then show "x \<in> set (traverse g [p] [])"
    proof (induction rule: rtrancl_induct)
      case base
      show ?case by (rule start)
    next
      case (step y z)
      with closed show ?case by blast
    qed
  qed
qed

lemma beyond_target: "(dependsOn g)\<^sup>* `` {p} - {p} = {q. (p, q) \<in> (dependsOn g)\<^sup>+} - {p}"
  by (auto simp: rtrancl_eq_or_trancl)

lemma directDependencies_inverted:
  "set (directDependencies (inverted g) a) =
    (if a \<in> fst ` set g then {b. (b, a) \<in> dependsOn g} else {})"
proof -
  have lookup: "map_of (map (\<lambda>n. (n, f n)) ks) a = (if a \<in> set ks then Some (f a) else None)"
    for f :: "string \<Rightarrow> string list" and ks
    by (induction ks) auto
  have known: "b \<in> fst ` set g" if "a \<in> set (directDependencies g b)" for b
  proof (rule ccontr)
    assume "b \<notin> fst ` set g"
    then have "map_of g b = None" by (simp add: map_of_eq_None_iff)
    with that show False by (simp add: directDependencies_def)
  qed
  have "directDependencies (inverted g) a =
      (if a \<in> fst ` set g
       then filter (\<lambda>m. a \<in> set (directDependencies g m)) (map fst g) else [])"
  proof -
    have "map_of (inverted g) a =
        (if a \<in> set (map fst g)
         then Some (filter (\<lambda>m. a \<in> set (directDependencies g m)) (map fst g)) else None)"
      unfolding inverted_def by (rule lookup)
    then show ?thesis
      by (simp add: directDependencies_def [of "inverted g"])
  qed
  then show ?thesis
    using known by (auto simp: dependsOn_def)
qed

lemma dependsOn_inverted:
  "dependsOn (inverted g) = {(a, b). a \<in> fst ` set g \<and> (b, a) \<in> dependsOn g}"
proof -
  have "(a, b) \<in> dependsOn (inverted g) \<longleftrightarrow> a \<in> fst ` set g \<and> (b, a) \<in> dependsOn g"
    for a b
    using directDependencies_inverted [of g a]
    by (simp add: dependsOn_def [of "inverted g"] split: if_splits)
  then show ?thesis by auto
qed

lemma sources_known: "(a, b) \<in> dependsOn g \<Longrightarrow> a \<in> fst ` set g"
proof (rule ccontr)
  assume "(a, b) \<in> dependsOn g" and "a \<notin> fst ` set g"
  then have "map_of g a = None" by (simp add: map_of_eq_None_iff)
  with \<open>(a, b) \<in> dependsOn g\<close> show False by (simp add: dependsOn_def directDependencies_def)
qed

lemma inverted_paths:
  assumes "p \<in> fst ` set g"
  shows "(p, q) \<in> (dependsOn (inverted g))\<^sup>+ \<longleftrightarrow> (q, p) \<in> (dependsOn g)\<^sup>+"
proof
  assume "(p, q) \<in> (dependsOn (inverted g))\<^sup>+"
  then have "(p, q) \<in> ((dependsOn g)\<inverse>)\<^sup>+"
    by (rule trancl_mono) (auto simp: dependsOn_inverted)
  then show "(q, p) \<in> (dependsOn g)\<^sup>+"
    by (simp add: trancl_converse)
next
  assume "(q, p) \<in> (dependsOn g)\<^sup>+"
  then have "p \<in> fst ` set g \<longrightarrow> (p, q) \<in> (dependsOn (inverted g))\<^sup>+"
  proof (induction rule: trancl_induct)
    case (base y)
    then show ?case by (auto simp: dependsOn_inverted)
  next
    case (step y z)
    show ?case
    proof
      assume "z \<in> fst ` set g"
      with step.hyps have "(z, y) \<in> dependsOn (inverted g)"
        by (simp add: dependsOn_inverted)
      moreover from step.hyps have "y \<in> fst ` set g" by (auto dest: sources_known)
      with step.IH have "(y, q) \<in> (dependsOn (inverted g))\<^sup>+" by simp
      ultimately show "(z, q) \<in> (dependsOn (inverted g))\<^sup>+" by (rule trancl_into_trancl2)
    qed
  qed
  with assms show "(p, q) \<in> (dependsOn (inverted g))\<^sup>+" by simp
qed

lemma sample_dependencies_cyclic:
  "findDependencies_spec cyclicGraph ''A'' = Inr [''C'', ''D'', ''B'']"
  by (simp add: cyclicGraph_def findDependencies_spec_def directDependencies_def)

lemma sample_dependents_chain:
  "findDependents_spec sampleGraph ''C'' = Inr [''A'', ''B'']"
  by (simp add: sampleGraph_def findDependents_spec_def directDependencies_def inverted_def)

lemma sample_dependencies_chain:
  "findDependencies_spec sampleGraph ''A'' = Inr [''C'', ''B'']"
  by (simp add: sampleGraph_def findDependencies_spec_def directDependencies_def)

text \<open>
  C7. For every graph, with diamonds or cycles or neither, and every project \<open>p\<close> of
  it, the traversal of the design terminates (it is a total function) and
  \<^verbatim>\<open>findDependencies\<close> returns exactly the projects reachable from \<open>p\<close> along one or
  more depends-on edges, without \<open>p\<close> itself, each once.
\<close>

theorem findDependencies_reachable:
  assumes "p \<in> fst ` set g"
  shows "\<exists>deps. findDependencies_spec g p = Inr deps
    \<and> set deps = {q. (p, q) \<in> (dependsOn g)\<^sup>+} - {p}
    \<and> distinct deps"
proof -
  have "distinct (traverse g [p] [])"
    by (rule traverse_distinct) simp
  then have "distinct (removeAll p (traverse g [p] []))"
    by (rule distinct_removeAll)
  moreover have "set (removeAll p (traverse g [p] [])) = {q. (p, q) \<in> (dependsOn g)\<^sup>+} - {p}"
    by (simp add: traverse_reachable beyond_target del: traverse.simps)
  ultimately show ?thesis using assms by (simp add: findDependencies_spec_def)
qed

theorem findDependencies_reachable_witness:
  "findDependencies_spec cyclicGraph ''A'' = Inr [''C'', ''D'', ''B'']
   \<and> {q. (''A'', q) \<in> (dependsOn cyclicGraph)\<^sup>+} - {''A''} = {''B'', ''C'', ''D''}"
proof -
  have "''A'' \<in> fst ` set cyclicGraph"
    by (simp add: cyclicGraph_def)
  from findDependencies_reachable [OF this] obtain deps where
    "findDependencies_spec cyclicGraph ''A'' = Inr deps"
    and "set deps = {q. (''A'', q) \<in> (dependsOn cyclicGraph)\<^sup>+} - {''A''}"
    by blast
  with sample_dependencies_cyclic
  have "set [''C'', ''D'', ''B''] = {q. (''A'', q) \<in> (dependsOn cyclicGraph)\<^sup>+} - {''A''}"
    by simp
  then have "{q. (''A'', q) \<in> (dependsOn cyclicGraph)\<^sup>+} - {''A''} = {''B'', ''C'', ''D''}"
    by (simp add: insert_commute)
  with sample_dependencies_cyclic show ?thesis by blast
qed

text \<open>
  C8. For every graph and all projects \<open>p\<close> and \<open>q\<close> of it, both resolver calls
  return, and \<open>q\<close> is among the dependents of \<open>p\<close> if and only if \<open>p\<close> is among the
  dependencies of \<open>q\<close>; the dependents of \<open>p\<close> are exactly the projects from which
  \<open>p\<close> is reachable along one or more depends-on edges, without \<open>p\<close> itself.
\<close>

theorem findDependents_inverse:
  assumes "p \<in> fst ` set g" and "q \<in> fst ` set g"
  shows "\<exists>dpts deps. findDependents_spec g p = Inr dpts
    \<and> findDependencies_spec g q = Inr deps
    \<and> (q \<in> set dpts \<longleftrightarrow> p \<in> set deps)
    \<and> set dpts = {x. (x, p) \<in> (dependsOn g)\<^sup>+} - {p}"
proof -
  have "set (removeAll p (traverse (inverted g) [p] []))
      = {x. (p, x) \<in> (dependsOn (inverted g))\<^sup>+} - {p}"
    by (simp add: traverse_reachable beyond_target del: traverse.simps)
  then have dpts: "set (removeAll p (traverse (inverted g) [p] []))
      = {x. (x, p) \<in> (dependsOn g)\<^sup>+} - {p}"
    by (simp add: inverted_paths [OF assms(1)])
  have deps: "set (removeAll q (traverse g [q] [])) = {x. (q, x) \<in> (dependsOn g)\<^sup>+} - {q}"
    by (simp add: traverse_reachable beyond_target del: traverse.simps)
  have "q \<in> set (removeAll p (traverse (inverted g) [p] []))
      \<longleftrightarrow> p \<in> set (removeAll q (traverse g [q] []))"
    unfolding dpts deps by auto
  with dpts assms show ?thesis
    by (simp add: findDependents_spec_def findDependencies_spec_def)
qed

theorem findDependents_inverse_witness:
  "findDependents_spec sampleGraph ''C'' = Inr [''A'', ''B'']
   \<and> findDependencies_spec sampleGraph ''A'' = Inr [''C'', ''B'']
   \<and> {x. (x, ''C'') \<in> (dependsOn sampleGraph)\<^sup>+} - {''C''} = {''A'', ''B''}"
proof -
  have "''C'' \<in> fst ` set sampleGraph" and "''A'' \<in> fst ` set sampleGraph"
    by (simp_all add: sampleGraph_def)
  from findDependents_inverse [OF this] obtain dpts where
    "findDependents_spec sampleGraph ''C'' = Inr dpts"
    and "set dpts = {x. (x, ''C'') \<in> (dependsOn sampleGraph)\<^sup>+} - {''C''}"
    by blast
  with sample_dependents_chain
  have "set [''A'', ''B''] = {x. (x, ''C'') \<in> (dependsOn sampleGraph)\<^sup>+} - {''C''}"
    by simp
  then have "{x. (x, ''C'') \<in> (dependsOn sampleGraph)\<^sup>+} - {''C''} = {''A'', ''B''}"
    by simp
  with sample_dependents_chain sample_dependencies_chain show ?thesis by blast
qed

end
